theory Spec2Isabelle
  imports Complex_Main
begin

section \<open>Strings of the source language\<close>

text \<open>
  A Python \<open>str\<close> is a sequence of code points. The model uses HOL strings, a
  \<^typ>\<open>char\<close> standing for the code point of the same number, so the strings of the
  model are the Python strings whose code points are below 256. The predicates below are
  Python's own classification of these code points.
\<close>

definition isspace :: "char \<Rightarrow> bool" where
  \<comment> \<open>\<open>str.isspace\<close> on one character: TAB, LF, VT, FF, CR, FS, GS, RS, US, SPACE,
      NEL (0x85) and NBSP (0xA0); it is the set that \<open>str.strip()\<close> removes.\<close>
  "isspace c \<longleftrightarrow> (of_char c :: nat) \<in> {9, 10, 11, 12, 13, 28, 29, 30, 31, 32, 133, 160}"

definition ascii_digit :: "char \<Rightarrow> bool" where
  "ascii_digit c \<longleftrightarrow> 48 \<le> (of_char c :: nat) \<and> (of_char c :: nat) \<le> 57"

definition isdigit :: "char \<Rightarrow> bool" where
  \<comment> \<open>\<open>str.isdigit\<close> on one character: the decimal digits, and the superscript
      digits two, three and one (0xB2, 0xB3, 0xB9), which are digits but not decimals.\<close>
  "isdigit c \<longleftrightarrow> ascii_digit c \<or> (of_char c :: nat) \<in> {178, 179, 185}"

definition str_isdigit :: "string \<Rightarrow> bool" where
  \<comment> \<open>\<open>s.isdigit()\<close>: at least one character, and all of them digits.\<close>
  "str_isdigit s \<longleftrightarrow> s \<noteq> [] \<and> list_all isdigit s"

fun lstrip :: "string \<Rightarrow> string" where
  "lstrip [] = []"
| "lstrip (c # cs) = (if isspace c then lstrip cs else c # cs)"

definition rstrip :: "string \<Rightarrow> string" where
  "rstrip s = rev (lstrip (rev s))"

definition strip :: "string \<Rightarrow> string" where
  \<comment> \<open>\<open>s.strip()\<close>: the slice between the first and the last character that is
      not whitespace.\<close>
  "strip s = rstrip (lstrip s)"

fun re_sub_class :: "char list \<Rightarrow> string \<Rightarrow> string" where
  \<comment> \<open>\<open>re.sub('[cls]', '', s)\<close>: a left-to-right scan in which every match of the
      character class (one character of \<open>cls\<close>) is replaced by the empty string.\<close>
  "re_sub_class cls [] = []"
| "re_sub_class cls (c # cs) =
     (if c \<in> set cls then re_sub_class cls cs else c # re_sub_class cls cs)"

definition illegal_chars :: "char list" where
  \<comment> \<open>The class of the pattern in \<open>sanitize_filename\<close>: less-than, greater-than, colon,
      double quote (0x22), slash, backslash (0x5C, written escaped in the pattern),
      vertical bar, question mark, asterisk.\<close>
  "illegal_chars =
     [CHR ''<'', CHR ''>'', CHR '':'', CHR 0x22, CHR ''/'', CHR 0x5C, CHR ''|'', CHR ''?'', CHR ''*'']"

section \<open>PDFSplitter\<close>

subsection \<open>sanitize_filename\<close>

definition sanitize_filename :: "string \<Rightarrow> string" where
  "sanitize_filename filename =
     (let sanitized = re_sub_class illegal_chars filename in strip sanitized)"

definition novo_nome_of :: "string \<Rightarrow> string" where
  \<comment> \<open>The expression \<open>self.sanitize_filename(name) + ".pdf"\<close> of \<open>dividir_pdf\<close>.\<close>
  "novo_nome_of name = sanitize_filename name @ ''.pdf''"

text \<open>
  The filename as the specification words it: every occurrence of one of the nine
  characters is removed, the surrounding whitespace is trimmed, and the extension is
  appended.
\<close>

definition spec_remove_illegal :: "string \<Rightarrow> string" where
  "spec_remove_illegal s =
     filter (\<lambda>c. c \<notin> {CHR ''<'', CHR ''>'', CHR '':'', CHR 0x22, CHR ''/'', CHR 0x5C,
                        CHR ''|'', CHR ''?'', CHR ''*''}) s"

definition spec_trim :: "string \<Rightarrow> string" where
  "spec_trim s = rev (dropWhile isspace (rev (dropWhile isspace s)))"

definition spec_resolve_filename :: "string \<Rightarrow> string" where
  "spec_resolve_filename name = spec_trim (spec_remove_illegal name) @ ''.pdf''"

subsection \<open>The name source, the document, and what a run leaves behind\<close>

text \<open>
  The data frame read from the spreadsheet is represented by its first column, one cell
  per row: \<open>None\<close> is a null cell, \<open>Some s\<close> a cell whose \<open>str()\<close> is \<open>s\<close>. A frame
  without columns is represented by the empty list: \<open>df.empty\<close> holds for it as for a
  frame without rows, and nothing else of it is read before that test.
\<close>

type_synonym cell = "string option"

fun str_cell :: "cell \<Rightarrow> string" where
  "str_cell None = ''nan''"
| "str_cell (Some s) = s"

datatype py_exception = ZeroDivisionError | ValueError | IndexError | OSError string

text \<open>
  The message boxes and the log lines, one constructor per call site of the source:
  \<^item> \<open>Erro_planilha_vazia\<close>: the sheet is empty;
  \<^item> \<open>Erro_celulas_vazias\<close>: empty cells in the first column;
  \<^item> \<open>Erro_menos_nomes n steps\<close>: the sheet has fewer names (\<open>n\<close>) than the files
    to be generated (\<open>steps\<close>);
  \<^item> \<open>Erro_salvar name e\<close>: saving the file \<open>name\<close> failed with \<open>e\<close>;
  \<^item> \<open>Erro_processamento e\<close>: the handler at the end of \<open>dividir_pdf\<close>;
  \<^item> \<open>Erro_campos\<close>, \<open>Erro_nao_numerico\<close>: the two messages of \<open>validar_campos\<close>;
  \<^item> \<open>Info_concluido\<close>, \<open>Erro_generico\<close>: the two final messages of
    \<open>iniciar_divisao\<close>.
\<close>

datatype dialog =
    Erro_planilha_vazia
  | Erro_celulas_vazias
  | Erro_menos_nomes nat nat
  | Erro_salvar string py_exception
  | Erro_processamento py_exception
  | Erro_campos
  | Erro_nao_numerico
  | Info_concluido
  | Erro_generico

datatype log_entry =
    Log_cancelada
  | Log_criado string
  | Log_erro_salvar string py_exception
  | Log_concluido
  | Log_erro_processamento py_exception

text \<open>
  The state a run acts on: the cancellation flag of the splitter, the writes made to the
  output folder in the order they were made (the path \<open>os.path.join(output_folder,
  novo_nome)\<close> kept as the pair of its two arguments, with the pages written), the values
  passed to the progress callback, the log and the message boxes shown.
\<close>

record 'p world =
  cancel_operation :: bool
  written :: "((string \<times> string) \<times> 'p list) list"
  progress :: "real list"
  log :: "log_entry list"
  dialogs :: "dialog list"

text \<open>
  What the run does not decide itself: what reading the two input files gives (the
  content, or the exception raised), whether opening and writing the file of chunk \<open>k\<close>
  raises, and whether the cancel button's handler (\<open>cancelar_operacao\<close>, the only
  writer of the flag besides \<open>iniciar_divisao\<close>) has run since the previous test of the
  flag when iteration \<open>k\<close> tests it. The flag is read at the head of an iteration
  only, so a request made anywhere between two tests has the effect of one made just
  before the second. A write that raises adds nothing to \<open>written\<close>: what it may have
  left on disk is not tracked.
\<close>

record 'p env =
  read_excel :: "string \<Rightarrow> py_exception + cell list"
  read_pdf :: "string \<Rightarrow> py_exception + 'p list"
  write_error :: "nat \<Rightarrow> py_exception option"
  cancel_request :: "nat \<Rightarrow> bool"

subsection \<open>validate_excel_data\<close>

definition validate_excel_data :: "cell list \<Rightarrow> 'p world \<Rightarrow> 'p world \<times> bool" where
  "validate_excel_data df w =
     (if df = [] then (w\<lparr>dialogs := dialogs w @ [Erro_planilha_vazia]\<rparr>, False)
      else if None \<in> set df then (w\<lparr>dialogs := dialogs w @ [Erro_celulas_vazias]\<rparr>, False)
      else (w, True))"

subsection \<open>dividir_pdf\<close>

text \<open>
  \<open>paginas_por_arquivo\<close> is a natural number: the only caller passes \<open>int\<close> of a
  string of digits. The division by it raises when it is zero, which is a branch of the
  model. The progress value, a double in the source, is a real number here. The loop of
  the source runs over \<open>range(0, total_paginas, paginas_por_arquivo)\<close>; the model runs
  over the list of the values of that range, and \<open>i // paginas_por_arquivo\<close> is the
  index of the chunk.
\<close>

function py_range :: "nat \<Rightarrow> nat \<Rightarrow> nat \<Rightarrow> nat list" where
  \<comment> \<open>\<open>range(i, stop, step)\<close> for a positive step. With step 0 Python raises; the
      splitter has raised at the division before it gets there.\<close>
  "py_range i stop step =
     (if 0 < step \<and> i < stop then i # py_range (i + step) stop step else [])"
  by pat_completeness auto
termination
  by (relation "measure (\<lambda>(i, stop, step). stop - i)") auto

declare py_range.simps [simp del]

definition total_steps_of :: "nat \<Rightarrow> nat \<Rightarrow> nat" where
  \<comment> \<open>\<open>(total_paginas // paginas_por_arquivo) + (1 if total_paginas %
      paginas_por_arquivo != 0 else 0)\<close>, for a divisor that is not zero.\<close>
  "total_steps_of total_paginas paginas_por_arquivo =
     total_paginas div paginas_por_arquivo
       + (if total_paginas mod paginas_por_arquivo \<noteq> 0 then 1 else 0)"

datatype loop_exit = Completed | Return_False | Raised py_exception

definition chunk_pages :: "'p list \<Rightarrow> nat \<Rightarrow> nat \<Rightarrow> 'p list" where
  \<comment> \<open>The inner loop: \<open>reader.pages[j]\<close> added for \<open>j\<close> in
      \<open>range(i, min(i + paginas_por_arquivo, total_paginas))\<close>.\<close>
  "chunk_pages pages i paginas_por_arquivo =
     map (\<lambda>j. pages ! j) [i ..< min (i + paginas_por_arquivo) (length pages)]"

fun process_chunks ::
  "'p env \<Rightarrow> cell list \<Rightarrow> 'p list \<Rightarrow> nat \<Rightarrow> nat \<Rightarrow> string \<Rightarrow> nat list \<Rightarrow> 'p world
     \<Rightarrow> 'p world \<times> loop_exit" where
  "process_chunks e df pages ppa total_steps output_folder [] w = (w, Completed)"
| "process_chunks e df pages ppa total_steps output_folder (i # rest) w =
     (let w1 = w\<lparr>cancel_operation := cancel_operation w \<or> cancel_request e (i div ppa)\<rparr> in
      if cancel_operation w1 then (w1\<lparr>log := log w1 @ [Log_cancelada]\<rparr>, Return_False)
      else if length df \<le> i div ppa then (w1, Raised IndexError)
      else
        let writer = chunk_pages pages i ppa;
            novo_nome = novo_nome_of (str_cell (df ! (i div ppa)));
            output_path = (output_folder, novo_nome)
        in case write_error e (i div ppa) of
             Some ex \<Rightarrow>
               (w1\<lparr>log := log w1 @ [Log_erro_salvar novo_nome ex],
                   dialogs := dialogs w1 @ [Erro_salvar novo_nome ex]\<rparr>, Return_False)
           | None \<Rightarrow>
               if total_steps = 0
               then (w1\<lparr>written := written w1 @ [(output_path, writer)],
                        log := log w1 @ [Log_criado novo_nome]\<rparr>, Raised ZeroDivisionError)
               else process_chunks e df pages ppa total_steps output_folder rest
                      (w1\<lparr>written := written w1 @ [(output_path, writer)],
                          log := log w1 @ [Log_criado novo_nome],
                          progress := progress w1 @
                            [real (i div ppa + 1) / real total_steps * 100]\<rparr>))"

definition handle_exception :: "py_exception \<Rightarrow> 'p world \<Rightarrow> 'p world \<times> bool" where
  \<comment> \<open>The handler of the outer \<open>try\<close>.\<close>
  "handle_exception ex w =
     (w\<lparr>log := log w @ [Log_erro_processamento ex],
        dialogs := dialogs w @ [Erro_processamento ex]\<rparr>, False)"

definition dividir_pdf ::
  "'p env \<Rightarrow> 'p world \<Rightarrow> string \<Rightarrow> string \<Rightarrow> nat \<Rightarrow> string \<Rightarrow> 'p world \<times> bool" where
  "dividir_pdf e w pdf_path excel_path paginas_por_arquivo output_folder =
     (case read_excel e excel_path of
        Inl ex \<Rightarrow> handle_exception ex w
      | Inr df \<Rightarrow>
          (case validate_excel_data df w of
             (w1, False) \<Rightarrow> (w1, False)
           | (w1, True) \<Rightarrow>
               (case read_pdf e pdf_path of
                  Inl ex \<Rightarrow> handle_exception ex w1
                | Inr pages \<Rightarrow>
                    let total_paginas = length pages in
                    if paginas_por_arquivo = 0 then handle_exception ZeroDivisionError w1
                    else
                      let total_steps = total_steps_of total_paginas paginas_por_arquivo in
                      if total_steps > length df
                      then (w1\<lparr>dialogs := dialogs w1 @
                                  [Erro_menos_nomes (length df) total_steps]\<rparr>, False)
                      else
                        (case process_chunks e df pages paginas_por_arquivo total_steps
                                output_folder (py_range 0 total_paginas paginas_por_arquivo) w1 of
                           (w2, Return_False) \<Rightarrow> (w2, False)
                         | (w2, Raised ex) \<Rightarrow> handle_exception ex w2
                         | (w2, Completed) \<Rightarrow> (w2\<lparr>log := log w2 @ [Log_concluido]\<rparr>, True)))))"

section \<open>Application\<close>

definition py_int :: "string \<Rightarrow> py_exception + nat" where
  \<comment> \<open>\<open>int(s)\<close> on the strings that pass \<open>isdigit\<close>: the decimal value when every
      character is a decimal digit, and \<open>ValueError\<close> on a superscript digit.\<close>
  "py_int s =
     (if s \<noteq> [] \<and> list_all ascii_digit s
      then Inr (foldl (\<lambda>a c. 10 * a + (of_char c - 48)) 0 s)
      else Inl ValueError)"

definition validar_campos ::
  "string \<Rightarrow> string \<Rightarrow> string \<Rightarrow> string \<Rightarrow> 'p world \<Rightarrow> 'p world \<times> bool" where
  "validar_campos pdf_path excel_path output_folder paginas_por_arquivo w =
     (if \<not> (pdf_path \<noteq> [] \<and> excel_path \<noteq> [] \<and> output_folder \<noteq> [])
      then (w\<lparr>dialogs := dialogs w @ [Erro_campos]\<rparr>, False)
      else if \<not> str_isdigit paginas_por_arquivo
      then (w\<lparr>dialogs := dialogs w @ [Erro_nao_numerico]\<rparr>, False)
      else (w, True))"

definition iniciar_divisao ::
  "'p env \<Rightarrow> 'p world \<Rightarrow> string \<Rightarrow> string \<Rightarrow> string \<Rightarrow> string \<Rightarrow> py_exception + 'p world" where
  "iniciar_divisao e w pdf_path excel_path paginas_por_arquivo output_folder =
     (case validar_campos pdf_path excel_path output_folder paginas_por_arquivo w of
        (w1, False) \<Rightarrow> Inr w1
      | (w1, True) \<Rightarrow>
          let w2 = w1\<lparr>cancel_operation := False\<rparr> in
          (case py_int paginas_por_arquivo of
             Inl ex \<Rightarrow> Inl ex
           | Inr n \<Rightarrow>
               (case dividir_pdf e w2 pdf_path excel_path n output_folder of
                  (w3, success) \<Rightarrow>
                    if success then Inr (w3\<lparr>dialogs := dialogs w3 @ [Info_concluido]\<rparr>)
                    else if \<not> cancel_operation w3
                    then Inr (w3\<lparr>dialogs := dialogs w3 @ [Erro_generico]\<rparr>)
                    else Inr w3)))"

section \<open>Notions of the specification\<close>

definition chunk_write ::
  "cell list \<Rightarrow> 'p list \<Rightarrow> nat \<Rightarrow> string \<Rightarrow> nat \<Rightarrow> (string \<times> string) \<times> 'p list" where
  \<comment> \<open>The output of chunk \<open>k\<close>: the pages from \<open>k * pagesPerFile\<close> on, at most
      \<open>pagesPerFile\<close> of them, under the name resolved from entry \<open>k\<close> of the name list.\<close>
  "chunk_write df pages ppa output_folder k =
     ((output_folder, novo_nome_of (str_cell (df ! k))), take ppa (drop (k * ppa) pages))"

definition progress_value :: "nat \<Rightarrow> nat \<Rightarrow> real" where
  \<comment> \<open>\<open>(chunkIndex + 1) / requiredChunkCount * 100\<close>. The source computes it in
      double precision; the model computes it in the reals.\<close>
  "progress_value required k = real (k + 1) / real required * 100"

section \<open>A sample run\<close>

definition sample_env :: "cell list \<Rightarrow> string \<Rightarrow> (nat \<Rightarrow> bool) \<Rightarrow> char env" where
  \<comment> \<open>A spreadsheet with the given first column, a document whose pages are the
      characters of a string, writes that succeed, and cancel requests at the given
      iterations.\<close>
  "sample_env names doc cancel =
     \<lparr>read_excel = (\<lambda>_. Inr names), read_pdf = (\<lambda>_. Inr doc),
      write_error = (\<lambda>_. None), cancel_request = cancel\<rparr>"

definition sample_names :: "cell list" where
  "sample_names = [Some ''A'', Some ''Report/Q1?'', Some '' C '', Some ''D'']"

definition idle :: "char world" where
  "idle = \<lparr>cancel_operation = False, written = [], progress = [], log = [], dialogs = []\<rparr>"

section \<open>The number of chunks\<close>

lemma steps_bound:
  assumes "0 < p"
  shows "k * p < tp \<longleftrightarrow> k < total_steps_of tp p"
proof -
  define q r where "q = tp div p" and "r = tp mod p"
  have tp: "tp = q * p + r" and r: "r < p"
    using assms by (simp_all add: q_def r_def)
  have n: "total_steps_of tp p = q + (if r \<noteq> 0 then 1 else 0)"
    by (simp add: total_steps_of_def q_def r_def)
  consider "k < q" | "k = q" | "q < k" by linarith
  then show ?thesis
  proof cases
    case 1
    then have "Suc k * p \<le> q * p" by (intro mult_le_mono1) simp
    then have "k * p < q * p + r" using assms by simp
    with 1 show ?thesis unfolding n by (simp add: tp)
  next
    case 2
    then show ?thesis unfolding n by (simp add: tp)
  next
    case 3
    then have "Suc q * p \<le> k * p" by (intro mult_le_mono1) simp
    then have "\<not> k * p < q * p + r" using r by simp
    with 3 show ?thesis unfolding n by (simp add: tp)
  qed
qed

lemma total_steps_ceiling:
  assumes "0 < p"
  shows "int (total_steps_of tp p) = \<lceil>real tp / real p\<rceil>"
proof -
  let ?n = "total_steps_of tp p"
  have up: "real tp \<le> real ?n * real p"
  proof -
    have "\<not> ?n * p < tp" using steps_bound [OF assms, of ?n tp] by simp
    then have "tp \<le> ?n * p" by simp
    then have "real tp \<le> real (?n * p)" by (simp only: of_nat_le_iff)
    then show ?thesis by simp
  qed
  have lo: "real ?n * real p < real tp + real p"
  proof (cases "?n")
    case 0
    then show ?thesis using assms by simp
  next
    case (Suc m)
    then have "m * p < tp" using steps_bound [OF assms, of m tp] by simp
    then have "real (m * p) < real tp" by (simp only: of_nat_less_iff)
    then show ?thesis using Suc by (simp add: algebra_simps)
  qed
  have p: "0 < real p" using assms by simp
  have "real tp / real p \<le> real ?n" using up p by (simp add: divide_le_eq)
  moreover have "real ?n - 1 < real tp / real p"
    using lo p by (simp add: less_divide_eq algebra_simps)
  ultimately have "\<lceil>real tp / real p\<rceil> = int ?n"
    by (intro ceiling_unique) simp_all
  then show ?thesis by simp
qed

lemma py_range_mult:
  assumes "0 < p"
  shows "py_range (j * p) tp p = map (\<lambda>k. k * p) [j ..< total_steps_of tp p]"
proof (induction "total_steps_of tp p - j" arbitrary: j)
  case 0
  then have "\<not> j < total_steps_of tp p" by simp
  then have "\<not> j * p < tp" using steps_bound [OF assms] by simp
  with 0 show ?case by (simp add: py_range.simps)
next
  case (Suc d)
  then have lt: "j < total_steps_of tp p" by simp
  then have "j * p < tp" using steps_bound [OF assms] by simp
  then have "py_range (j * p) tp p = j * p # py_range (Suc j * p) tp p"
    using assms by (subst py_range.simps) (simp add: add.commute)
  also have "py_range (Suc j * p) tp p = map (\<lambda>k. k * p) [Suc j ..< total_steps_of tp p]"
    using Suc.hyps(1) [of "Suc j"] Suc.hyps(2) by simp
  finally show ?case using lt by (simp add: upt_conv_Cons)
qed

lemma py_range_eq:
  "0 < p \<Longrightarrow> py_range 0 tp p = map (\<lambda>k. k * p) [0 ..< total_steps_of tp p]"
  using py_range_mult [of p 0 tp] by simp

section \<open>The chunks and the loop\<close>

lemma chunk_pages_take_drop: "chunk_pages pages i ppa = take ppa (drop i pages)"
proof (rule nth_equalityI)
  show len: "length (chunk_pages pages i ppa) = length (take ppa (drop i pages))"
    by (simp add: chunk_pages_def)
  fix j
  assume "j < length (chunk_pages pages i ppa)"
  then have j: "i + j < min (i + ppa) (length pages)"
    by (simp add: chunk_pages_def less_diff_conv add.commute)
  then have "chunk_pages pages i ppa ! j = pages ! (i + j)"
    by (simp add: chunk_pages_def less_diff_conv add.commute)
  also have "\<dots> = take ppa (drop i pages) ! j" using j by simp
  finally show "chunk_pages pages i ppa ! j = take ppa (drop i pages) ! j" .
qed

lemma concat_take_drop:
  "concat (map (\<lambda>k. take p (drop (k * p) xs)) [0 ..< m]) = take (m * p) xs"
proof (induction m)
  case 0
  then show ?case by simp
next
  case (Suc m)
  have "take (Suc m * p) xs = take (m * p + p) xs" by (simp add: add.commute)
  also have "\<dots> = take (m * p) xs @ take p (drop (m * p) xs)" by (rule take_add)
  finally show ?case using Suc by simp
qed

lemma concat_chunks:
  assumes "0 < p"
  shows "concat (map (\<lambda>k. take p (drop (k * p) xs)) [0 ..< total_steps_of (length xs) p]) = xs"
proof -
  have "\<not> total_steps_of (length xs) p * p < length xs"
    using steps_bound [OF assms, of "total_steps_of (length xs) p" "length xs"] by simp
  then show ?thesis by (simp add: concat_take_drop)
qed

lemma process_chunks_prefix:
  assumes "0 < p" and "0 < n"
  shows "process_chunks e df pages p n folder (map (\<lambda>k. k * p) ks) w = (w', ex) \<Longrightarrow>
    \<exists>m\<le>length ks.
       written w' = written w @ map (chunk_write df pages p folder) (take m ks)
     \<and> progress w' = progress w @ map (progress_value n) (take m ks)
     \<and> (ex = Completed \<longrightarrow> m = length ks)"
proof (induction ks arbitrary: w)
  case Nil
  then show ?case by auto
next
  case (Cons k ks)
  let ?w1 = "w\<lparr>cancel_operation := cancel_operation w \<or> cancel_request e k\<rparr>"
  let ?w2 = "?w1\<lparr>written := written ?w1 @ [chunk_write df pages p folder k],
                    log := log ?w1 @ [Log_criado (novo_nome_of (str_cell (df ! k)))],
                    progress := progress ?w1 @ [progress_value n k]\<rparr>"
  show ?case
  proof (cases "\<not> cancel_operation ?w1 \<and> k < length df \<and> write_error e k = None")
    case True
    then have "process_chunks e df pages p n folder (map (\<lambda>k. k * p) (k # ks)) w
               = process_chunks e df pages p n folder (map (\<lambda>k. k * p) ks) ?w2"
      using assms
      by (simp add: Let_def chunk_write_def chunk_pages_take_drop progress_value_def)
    with Cons.prems have "process_chunks e df pages p n folder (map (\<lambda>k. k * p) ks) ?w2 = (w', ex)"
      by simp
    from Cons.IH [OF this] obtain m where m: "m \<le> length ks"
      "written w' = written ?w2 @ map (chunk_write df pages p folder) (take m ks)"
      "progress w' = progress ?w2 @ map (progress_value n) (take m ks)"
      "ex = Completed \<longrightarrow> m = length ks" by blast
    show ?thesis
      by (rule exI [of _ "Suc m"]) (use m in simp)
  next
    case False
    then have "w' = ?w1\<lparr>log := log w'\<rparr> \<or> w' = ?w1\<lparr>log := log w', dialogs := dialogs w'\<rparr>" and "ex \<noteq> Completed"
      using Cons.prems assms
      by (auto simp: Let_def split: if_splits option.splits)
    then have "written w' = written w" "progress w' = progress w" "ex \<noteq> Completed"
      by auto (metis world.select_convs world.update_convs world.surjective)+
    then show ?thesis by (intro exI [of _ 0]) simp
  qed
qed

lemma process_chunks_cancel:
  assumes "0 < p" and "0 < n"
  shows "j \<le> c \<Longrightarrow> c < hi \<Longrightarrow> hi \<le> length df \<Longrightarrow> \<not> cancel_operation w \<Longrightarrow>
    (\<And>i. j \<le> i \<Longrightarrow> i < c \<Longrightarrow> \<not> cancel_request e i \<and> write_error e i = None) \<Longrightarrow>
    cancel_request e c \<Longrightarrow>
    process_chunks e df pages p n folder (map (\<lambda>k. k * p) [j ..< hi]) w =
      (w\<lparr>cancel_operation := True,
         written := written w @ map (chunk_write df pages p folder) [j ..< c],
         log := log w @ map (\<lambda>k. Log_criado (novo_nome_of (str_cell (df ! k)))) [j ..< c]
                  @ [Log_cancelada],
         progress := progress w @ map (progress_value n) [j ..< c]\<rparr>, Return_False)"
proof (induction "c - j" arbitrary: j w)
  case 0
  then have "j = c" by simp
  with 0 assms show ?case by (simp add: upt_conv_Cons)
next
  case (Suc d)
  then have jc: "j < c" by simp
  let ?w2 = "w\<lparr>written := written w @ [chunk_write df pages p folder j],
                 log := log w @ [Log_criado (novo_nome_of (str_cell (df ! j)))],
                 progress := progress w @ [progress_value n j]\<rparr>"
  have ok: "\<not> cancel_request e j" "write_error e j = None"
    using Suc.prems(5) [of j] jc by simp_all
  have "process_chunks e df pages p n folder (map (\<lambda>k. k * p) [j ..< hi]) w
        = process_chunks e df pages p n folder (map (\<lambda>k. k * p) [Suc j ..< hi]) ?w2"
    using assms jc Suc.prems ok
    by (simp add: upt_conv_Cons Let_def chunk_write_def chunk_pages_take_drop progress_value_def)
  also have "\<dots> = (?w2\<lparr>cancel_operation := True,
         written := written ?w2 @ map (chunk_write df pages p folder) [Suc j ..< c],
         log := log ?w2 @ map (\<lambda>k. Log_criado (novo_nome_of (str_cell (df ! k)))) [Suc j ..< c]
                  @ [Log_cancelada],
         progress := progress ?w2 @ map (progress_value n) [Suc j ..< c]\<rparr>, Return_False)"
    using Suc.hyps(2) jc Suc.prems by (intro Suc.hyps(1)) simp_all
  finally show ?case using jc by (simp add: upt_conv_Cons)
qed

lemma dividir_pdf_loop:
  assumes "read_excel e xls = Inr df" "df \<noteq> []" "None \<notin> set df"
    "read_pdf e pdf = Inr pages" "0 < p" "total_steps_of (length pages) p \<le> length df"
  shows "dividir_pdf e w pdf xls p out =
    (case process_chunks e df pages p (total_steps_of (length pages) p) out
            (map (\<lambda>k. k * p) [0 ..< total_steps_of (length pages) p]) w of
       (w2, Return_False) \<Rightarrow> (w2, False)
     | (w2, Raised ex) \<Rightarrow> handle_exception ex w2
     | (w2, Completed) \<Rightarrow> (w2\<lparr>log := log w2 @ [Log_concluido]\<rparr>, True))"
  using assms by (simp add: dividir_pdf_def validate_excel_data_def py_range_eq Let_def)

lemma dividir_pdf_success:
  assumes "dividir_pdf e w pdf xls p out = (w', True)"
  shows "\<exists>df pages w2. read_excel e xls = Inr df \<and> df \<noteq> [] \<and> None \<notin> set df
     \<and> read_pdf e pdf = Inr pages \<and> 0 < p \<and> total_steps_of (length pages) p \<le> length df
     \<and> process_chunks e df pages p (total_steps_of (length pages) p) out
            (map (\<lambda>k. k * p) [0 ..< total_steps_of (length pages) p]) w = (w2, Completed)
     \<and> w' = w2\<lparr>log := log w2 @ [Log_concluido]\<rparr>"
  using assms
  by (auto simp: dividir_pdf_def validate_excel_data_def handle_exception_def Let_def py_range_eq
      split: sum.splits if_splits prod.splits loop_exit.splits)

lemma total_steps_nat_ceiling:
  "0 < p \<Longrightarrow> nat \<lceil>real tp / real p\<rceil> = total_steps_of tp p"
  using total_steps_ceiling [of p tp] by simp

lemma dividir_pdf_prefix:
  assumes "0 < p" and "read_pdf e pdf = Inr pages" and "read_excel e xls = Inr df"
    and run: "dividir_pdf e w pdf xls p out = (w', ok)"
  shows "\<exists>m\<le>total_steps_of (length pages) p.
       written w' = written w @ map (chunk_write df pages p out) [0 ..< m]
     \<and> progress w' = progress w @ map (progress_value (total_steps_of (length pages) p)) [0 ..< m]
     \<and> (ok \<longrightarrow> m = total_steps_of (length pages) p)"
proof -
  let ?n = "total_steps_of (length pages) p"
  let ?ks = "[0 ..< ?n]"
  show ?thesis
  proof (cases "df \<noteq> [] \<and> None \<notin> set df \<and> ?n \<le> length df")
    case False
    then have "written w' = written w \<and> progress w' = progress w \<and> \<not> ok"
      using assms
      by (auto simp: dividir_pdf_def validate_excel_data_def Let_def split: if_splits)
    then show ?thesis by (intro exI [of _ 0]) simp
  next
    case True
    obtain w2 ex where loop:
      "process_chunks e df pages p ?n out (map (\<lambda>k. k * p) ?ks) w = (w2, ex)"
      by (cases "process_chunks e df pages p ?n out (map (\<lambda>k. k * p) ?ks) w")
    have w': "written w' = written w2 \<and> progress w' = progress w2 \<and> (ok \<longrightarrow> ex = Completed)"
      using run True assms(1-3) loop
      by (cases ex) (auto simp: dividir_pdf_loop handle_exception_def)
    show ?thesis
    proof (cases "?n = 0")
      case True
      with loop w' show ?thesis by (intro exI [of _ 0]) auto
    next
      case False
      then have "0 < ?n" by simp
      from process_chunks_prefix [OF assms(1) this loop] obtain m where
        "m \<le> length ?ks"
        "written w2 = written w @ map (chunk_write df pages p out) (take m ?ks)"
        "progress w2 = progress w @ map (progress_value ?n) (take m ?ks)"
        "ex = Completed \<longrightarrow> m = length ?ks" by blast
      then show ?thesis using w'
        by (intro exI [of _ m]) (simp add: take_upt)
    qed
  qed
qed

lemma sample_run:
  "dividir_pdf (sample_env sample_names ''abcdefghij'' (\<lambda>_. False)) idle ''in.pdf'' ''names.xlsx'' 3 ''out'' =
     (idle\<lparr>written := [((''out'', ''A.pdf''), ''abc''), ((''out'', ''ReportQ1.pdf''), ''def''),
                        ((''out'', ''C.pdf''), ''ghi''), ((''out'', ''D.pdf''), ''j'')],
           progress := [25, 50, 75, 100],
           log := [Log_criado ''A.pdf'', Log_criado ''ReportQ1.pdf'', Log_criado ''C.pdf'',
                   Log_criado ''D.pdf'', Log_concluido]\<rparr>, True)"
  by (simp add: dividir_pdf_def sample_env_def sample_names_def idle_def validate_excel_data_def
      total_steps_of_def py_range.simps chunk_pages_def novo_nome_of_def sanitize_filename_def
      illegal_chars_def strip_def rstrip_def isspace_def upt_conv_Cons Let_def)

section \<open>The filename\<close>

lemma re_sub_class_filter: "re_sub_class cls s = filter (\<lambda>c. c \<notin> set cls) s"
  by (induction s) simp_all

lemma lstrip_dropWhile: "lstrip s = dropWhile isspace s"
  by (induction s) simp_all

lemma strip_spec_trim: "strip s = spec_trim s"
  by (simp add: strip_def rstrip_def spec_trim_def lstrip_dropWhile)

lemma sanitize_filename_spec: "sanitize_filename s = spec_trim (spec_remove_illegal s)"
  by (simp add: sanitize_filename_def strip_spec_trim re_sub_class_filter
      spec_remove_illegal_def illegal_chars_def)

lemma dropWhile_fix: "xs = [] \<or> \<not> P (hd xs) \<Longrightarrow> dropWhile P xs = xs"
  by (cases xs) auto

lemma spec_trim_idem: "spec_trim (spec_trim s) = spec_trim s"
proof -
  define t where "t = dropWhile isspace s"
  define u where "u = rev (dropWhile isspace (rev t))"
  have front: "dropWhile isspace u = u"
  proof (cases "t = []")
    case True
    then show ?thesis by (simp add: u_def)
  next
    case False
    then have h: "\<not> isspace (hd t)" unfolding t_def by (simp add: hd_dropWhile)
    have "hd t \<in> set (rev t)" using False by simp
    then have ne: "dropWhile isspace (rev t) \<noteq> []"
      using h by (auto simp: dropWhile_eq_Nil_conv)
    have "last (dropWhile isspace (rev t)) = last (rev t)"
      using ne by (metis last_appendR takeWhile_dropWhile_id)
    then have "hd u = hd t" using ne False by (simp add: u_def hd_rev last_rev)
    moreover have "u \<noteq> []" using ne by (simp add: u_def)
    ultimately show ?thesis using h by (intro dropWhile_fix) simp
  qed
  have "rev (dropWhile isspace (rev u)) = u" by (simp add: u_def)
  with front have "rev (dropWhile isspace (rev (dropWhile isspace u))) = u" by simp
  then show ?thesis by (simp add: spec_trim_def u_def t_def)
qed

lemma spec_remove_illegal_trim:
  "spec_remove_illegal (spec_trim (spec_remove_illegal s)) = spec_trim (spec_remove_illegal s)"
proof -
  have "set (spec_trim xs) \<subseteq> set xs" for xs :: string
    by (auto simp: spec_trim_def dest!: set_dropWhileD)
  then have "set (spec_trim (spec_remove_illegal s)) \<subseteq> set (spec_remove_illegal s)" .
  then show ?thesis
    unfolding spec_remove_illegal_def by (intro filter_True) auto
qed

text \<open>
  C5. The output filename of a name is the name with every occurrence of the nine
  characters removed, then trimmed of surrounding whitespace, then extended by
  \<open>.pdf\<close>; the name \<open>Report/Q1?\<close> gives \<open>ReportQ1.pdf\<close>.
\<close>

theorem novo_nome_resolved:
  "novo_nome_of name = spec_resolve_filename name
   \<and> novo_nome_of ''Report/Q1?'' = ''ReportQ1.pdf''"
proof
  show "novo_nome_of name = spec_resolve_filename name"
    by (simp add: novo_nome_of_def spec_resolve_filename_def sanitize_filename_spec)
  show "novo_nome_of ''Report/Q1?'' = ''ReportQ1.pdf''"
    by (simp add: novo_nome_of_def sanitize_filename_def illegal_chars_def strip_def
        rstrip_def isspace_def)
qed

text \<open>
  C10. Sanitizing a filename twice gives what sanitizing it once gives.
\<close>

theorem sanitize_filename_idempotent:
  "sanitize_filename (sanitize_filename s) = sanitize_filename s"
proof -
  let ?t = "spec_trim (spec_remove_illegal s)"
  have "sanitize_filename (sanitize_filename s) = spec_trim (spec_remove_illegal ?t)"
    by (simp add: sanitize_filename_spec)
  also have "\<dots> = spec_trim ?t"
    by (simp only: spec_remove_illegal_trim)
  also have "\<dots> = ?t"
    by (rule spec_trim_idem)
  finally show ?thesis
    by (simp add: sanitize_filename_spec)
qed

section \<open>The chunks of a successful run\<close>

text \<open>
  C1. On a successful run the page sequences written by the run, concatenated in the
  order of the chunks, are the pages of the document, and chunk \<open>i\<close> holds the pages
  from \<open>i * pagesPerFile\<close> up to, and without, \<open>min ((i + 1) * pagesPerFile)
  totalPages\<close>, in the order of the document. (A run succeeds only with a positive
  \<open>pagesPerFile\<close>; the writes of the run are those after the ones made before it.)
\<close>

theorem split_round_trip:
  assumes "dividir_pdf e w pdf xls p out = (w', True)" and "read_pdf e pdf = Inr pages"
  shows "let chunks = map snd (drop (length (written w)) (written w')) in
           concat chunks = pages
         \<and> (\<forall>i<length chunks.
               chunks ! i = map (\<lambda>j. pages ! j) [i * p ..< min ((i + 1) * p) (length pages)])"
proof -
  from dividir_pdf_success [OF assms(1)] assms(2) obtain df where
    df: "read_excel e xls = Inr df" and p: "0 < p"
    by auto
  let ?n = "total_steps_of (length pages) p"
  from dividir_pdf_prefix [OF p assms(2) df assms(1)]
  have wr: "written w' = written w @ map (chunk_write df pages p out) [0 ..< ?n]"
    by auto
  have chunks: "map snd (drop (length (written w)) (written w'))
                = map (\<lambda>k. take p (drop (k * p) pages)) [0 ..< ?n]"
    by (simp add: wr chunk_write_def comp_def)
  have "concat (map (\<lambda>k. take p (drop (k * p) pages)) [0 ..< ?n]) = pages"
    by (rule concat_chunks [OF p])
  moreover have "take p (drop (i * p) pages)
      = map (\<lambda>j. pages ! j) [i * p ..< min ((i + 1) * p) (length pages)]" for i
    using chunk_pages_take_drop [of pages "i * p" p]
    by (simp add: chunk_pages_def add.commute)
  ultimately show ?thesis unfolding chunks Let_def by simp
qed

theorem split_round_trip_witness:
  "concat (map snd (written (fst (dividir_pdf (sample_env sample_names ''abcdefghij'' (\<lambda>_. False))
      idle ''in.pdf'' ''names.xlsx'' 3 ''out'')))) = ''abcdefghij''
   \<and> snd (dividir_pdf (sample_env sample_names ''abcdefghij'' (\<lambda>_. False))
      idle ''in.pdf'' ''names.xlsx'' 3 ''out'')"
proof -
  let ?e = "sample_env sample_names ''abcdefghij'' (\<lambda>_. False)"
  let ?r = "dividir_pdf ?e idle ''in.pdf'' ''names.xlsx'' 3 ''out''"
  have ok: "snd ?r" by (simp add: sample_run)
  then have run: "?r = (fst ?r, True)" by (simp add: prod_eq_iff)
  have doc: "read_pdf ?e ''in.pdf'' = Inr ''abcdefghij''" by (simp add: sample_env_def)
  have "written idle = []" by (simp add: idle_def)
  with split_round_trip [OF run doc] ok show ?thesis by (simp add: Let_def)
qed

text \<open>
  C2. For a positive \<open>pagesPerFile\<close>, the count \<open>total_steps\<close> that the splitter
  compares with the number of names and divides the progress by is the ceiling of
  \<open>totalPages / pagesPerFile\<close>; the loop has as many iterations, and a successful run
  makes as many writes. For 10 pages and 3 pages per file it is 4, and the chunks have
  3, 3, 3 and 1 pages.
\<close>

theorem chunk_count:
  assumes "0 < p" and "read_pdf e pdf = Inr pages"
  shows "int (total_steps_of (length pages) p) = \<lceil>real (length pages) / real p\<rceil>
     \<and> length (py_range 0 (length pages) p) = total_steps_of (length pages) p
     \<and> (dividir_pdf e w pdf xls p out = (w', True) \<longrightarrow>
          int (length (written w')) = int (length (written w)) + \<lceil>real (length pages) / real p\<rceil>)
     \<and> total_steps_of 10 3 = 4
     \<and> map (\<lambda>f. length (snd f))
          (written (fst (dividir_pdf (sample_env sample_names ''abcdefghij'' (\<lambda>_. False))
             idle ''in.pdf'' ''names.xlsx'' 3 ''out''))) = [3, 3, 3, 1]"
proof (intro conjI impI)
  show c: "int (total_steps_of (length pages) p) = \<lceil>real (length pages) / real p\<rceil>"
    by (rule total_steps_ceiling [OF assms(1)])
  show "length (py_range 0 (length pages) p) = total_steps_of (length pages) p"
    by (simp add: py_range_eq [OF assms(1)])
  show "total_steps_of 10 3 = 4" by (simp add: total_steps_of_def)
  show "map (\<lambda>f. length (snd f))
          (written (fst (dividir_pdf (sample_env sample_names ''abcdefghij'' (\<lambda>_. False))
             idle ''in.pdf'' ''names.xlsx'' 3 ''out''))) = [3, 3, 3, 1]"
    by (simp add: sample_run)
  assume run: "dividir_pdf e w pdf xls p out = (w', True)"
  from dividir_pdf_success [OF run] obtain df where df: "read_excel e xls = Inr df" by auto
  from dividir_pdf_prefix [OF assms df run]
  have "length (written w') = length (written w) + total_steps_of (length pages) p" by auto
  then show "int (length (written w')) = int (length (written w)) + \<lceil>real (length pages) / real p\<rceil>"
    using c by simp
qed

theorem chunk_count_witness:
  "int (total_steps_of (length ''abcdefghij'') 3) = \<lceil>real (length ''abcdefghij'') / real (3::nat)\<rceil>
   \<and> length (py_range 0 (length ''abcdefghij'') 3) = 4
   \<and> length (written (fst (dividir_pdf (sample_env sample_names ''abcdefghij'' (\<lambda>_. False))
             idle ''in.pdf'' ''names.xlsx'' 3 ''out''))) = 4"
proof -
  let ?e = "sample_env sample_names ''abcdefghij'' (\<lambda>_. False)"
  let ?r = "dividir_pdf ?e idle ''in.pdf'' ''names.xlsx'' 3 ''out''"
  have ok: "snd ?r" by (simp add: sample_run)
  then have run: "?r = (fst ?r, True)" by (simp add: prod_eq_iff)
  have doc: "read_pdf ?e ''in.pdf'' = Inr ''abcdefghij''" by (simp add: sample_env_def)
  have p: "0 < (3::nat)" by simp
  have "int (total_steps_of (length ''abcdefghij'') 3) = 4" by (simp add: total_steps_of_def)
  with chunk_count [OF p doc, of idle "''names.xlsx''" "''out''" "fst ?r"] run
  show ?thesis by (simp add: idle_def)
qed

section \<open>Runs that write nothing\<close>

text \<open>
  C3. With a valid name list that is shorter than the required chunk count, the run fails
  with the message that gives both numbers, the length of the list and the required
  count, and nothing else changes: no file is written.
\<close>

theorem insufficient_names:
  assumes "read_excel e xls = Inr df" and "df \<noteq> []" and "None \<notin> set df"
    and "read_pdf e pdf = Inr pages" and "0 < p"
    and "int (length df) < \<lceil>real (length pages) / real p\<rceil>"
  shows "dividir_pdf e w pdf xls p out =
           (w\<lparr>dialogs := dialogs w @
                 [Erro_menos_nomes (length df) (nat \<lceil>real (length pages) / real p\<rceil>)]\<rparr>, False)
         \<and> written (fst (dividir_pdf e w pdf xls p out)) = written w"
proof -
  have "length df < total_steps_of (length pages) p"
    using assms(6) total_steps_ceiling [OF assms(5), of "length pages"] by simp
  then show ?thesis
    using assms(1-5)
    by (simp add: dividir_pdf_def validate_excel_data_def Let_def total_steps_nat_ceiling)
qed

theorem insufficient_names_witness:
  "dividir_pdf (sample_env [Some ''A'', Some ''B'', Some ''C''] ''abcdefghij'' (\<lambda>_. False))
       idle ''in.pdf'' ''names.xlsx'' 3 ''out'' =
     (idle\<lparr>dialogs := [Erro_menos_nomes 3 4]\<rparr>, False)"
proof -
  let ?e = "sample_env [Some ''A'', Some ''B'', Some ''C''] ''abcdefghij'' (\<lambda>_. False)"
  have names: "read_excel ?e ''names.xlsx'' = Inr [Some ''A'', Some ''B'', Some ''C'']"
    and doc: "read_pdf ?e ''in.pdf'' = Inr ''abcdefghij''"
    by (simp_all add: sample_env_def)
  have c: "\<lceil>real (length ''abcdefghij'') / real (3::nat)\<rceil> = 4"
    by (simp add: ceiling_eq_iff)
  have few: "int (length [Some ''A'', Some ''B'', Some ''C'']) < \<lceil>real (length ''abcdefghij'') / real (3::nat)\<rceil>"
    unfolding c by simp
  from insufficient_names [OF names _ _ doc _ few, of idle "''out''"] c
  show ?thesis by (simp add: idle_def)
qed

text \<open>
  C4. With a name source that is empty or has a null cell in its first column, the run
  fails with the message of \<open>validate_excel_data\<close> and writes nothing, whatever the
  document and \<open>pagesPerFile\<close> are: the document is not read before the names are
  validated.
\<close>

theorem invalid_names:
  assumes "read_excel e xls = Inr df" and "df = [] \<or> None \<in> set df"
  shows "dividir_pdf e w pdf xls p out =
           (w\<lparr>dialogs := dialogs w @
                 [if df = [] then Erro_planilha_vazia else Erro_celulas_vazias]\<rparr>, False)
         \<and> written (fst (dividir_pdf e w pdf xls p out)) = written w"
  using assms by (auto simp: dividir_pdf_def validate_excel_data_def)

theorem invalid_names_witness:
  "dividir_pdf (sample_env [Some ''A'', None, Some ''C'', Some ''D''] ''abcdefghij'' (\<lambda>_. False))
       idle ''in.pdf'' ''names.xlsx'' 3 ''out'' =
     (idle\<lparr>dialogs := [Erro_celulas_vazias]\<rparr>, False)
   \<and> dividir_pdf (sample_env [] ''abcdefghij'' (\<lambda>_. False))
       idle ''in.pdf'' ''names.xlsx'' 3 ''out'' =
     (idle\<lparr>dialogs := [Erro_planilha_vazia]\<rparr>, False)"
proof -
  have a: "read_excel (sample_env ns ''abcdefghij'' (\<lambda>_. False)) ''names.xlsx'' = Inr ns" for ns
    by (simp add: sample_env_def)
  have b: "[Some ''A'', None, Some ''C'', Some ''D''] = [] \<or> None \<in> set [Some ''A'', None, Some ''C'', Some ''D'']"
    by simp
  have c: "([] :: cell list) = [] \<or> None \<in> set ([] :: cell list)" by simp
  from invalid_names [OF a b, of idle "''in.pdf''" 3 "''out''"]
    invalid_names [OF a c, of idle "''in.pdf''" 3 "''out''"]
  show ?thesis by (simp add: idle_def)
qed

text \<open>
  C9. For a document without pages, a valid name list and a positive \<open>pagesPerFile\<close>,
  the run succeeds; it writes no file and reports no progress value.
\<close>

theorem empty_document:
  assumes "read_excel e xls = Inr df" and "df \<noteq> []" and "None \<notin> set df"
    and "read_pdf e pdf = Inr []" and "0 < p"
  shows "dividir_pdf e w pdf xls p out = (w\<lparr>log := log w @ [Log_concluido]\<rparr>, True)
         \<and> written (fst (dividir_pdf e w pdf xls p out)) = written w
         \<and> progress (fst ( dividir_pdf e w pdf xls p out)) = progress w"
  using assms
  by (simp add: dividir_pdf_def validate_excel_data_def total_steps_of_def py_range.simps)

theorem empty_document_witness:
  "dividir_pdf (sample_env sample_names [] (\<lambda>_. False)) idle ''in.pdf'' ''names.xlsx'' 3 ''out'' =
     (idle\<lparr>log := [Log_concluido]\<rparr>, True)"
proof -
  let ?e = "sample_env sample_names [] (\<lambda>_. False)"
  have names: "read_excel ?e ''names.xlsx'' = Inr sample_names"
    and doc: "read_pdf ?e ''in.pdf'' = Inr []"
    by (simp_all add: sample_env_def)
  have v: "sample_names \<noteq> []" "None \<notin> set sample_names" by (simp_all add: sample_names_def)
  from empty_document [OF names v doc, of 3 idle "''out''"]
  show ?thesis by (simp add: idle_def)
qed

section \<open>Progress\<close>

lemma progress_value_strict: "0 < n \<Longrightarrow> i < j \<Longrightarrow> progress_value n i < progress_value n j"
  by (simp add: progress_value_def divide_strict_right_mono)

lemma sorted_progress_values:
  "0 < n \<Longrightarrow> sorted_wrt (<) (map (progress_value n) [0 ..< m])"
  by (simp add: sorted_wrt_map sorted_wrt_iff_nth_less progress_value_strict)

lemma progress_value_last: "0 < n \<Longrightarrow> progress_value n (n - 1) = 100"
  by (simp add: progress_value_def)

text \<open>
  C7. In every run with a positive \<open>pagesPerFile\<close>, the value reported after chunk
  \<open>i\<close> is \<open>(i + 1) / requiredChunkCount * 100\<close>; the values reported are strictly
  increasing; a successful run reports one value per chunk, and when the document has at
  least one page its last value is 100.
\<close>

theorem reported_progress:
  assumes "0 < p" and "read_pdf e pdf = Inr pages"
    and "dividir_pdf e w pdf xls p out = (w', ok)"
  shows "let required = nat \<lceil>real (length pages) / real p\<rceil>;
             reported = drop (length (progress w)) (progress w') in
           length reported \<le> required
         \<and> (\<forall>i<length reported. reported ! i = real (i + 1) / real required * 100)
         \<and> sorted_wrt (<) reported
         \<and> (ok \<longrightarrow> length reported = required)
         \<and> (ok \<and> pages \<noteq> [] \<longrightarrow> reported \<noteq> [] \<and> last reported = 100)"
proof -
  let ?n = "total_steps_of (length pages) p"
  have "\<exists>m\<le>?n. progress w' = progress w @ map (progress_value ?n) [0 ..< m] \<and> (ok \<longrightarrow> m = ?n)"
  proof (cases "read_excel e xls")
    case (Inl ex)
    with assms(3) have "progress w' = progress w \<and> \<not> ok"
      by (auto simp: dividir_pdf_def handle_exception_def)
    then show ?thesis by (intro exI [of _ 0]) simp
  next
    case (Inr df)
    from dividir_pdf_prefix [OF assms(1,2) Inr assms(3)] show ?thesis by blast
  qed
  then obtain m where m: "m \<le> ?n" "ok \<longrightarrow> m = ?n"
    and pw: "progress w' = progress w @ map (progress_value ?n) [0 ..< m]"
    by blast
  have rep: "drop (length (progress w)) (progress w') = map (progress_value ?n) [0 ..< m]"
    by (simp add: pw)
  have pos: "pages \<noteq> [] \<Longrightarrow> 0 < ?n"
    using steps_bound [OF assms(1), of 0 "length pages"] by simp
  have srt: "sorted_wrt (<) (map (progress_value ?n) [0 ..< m])"
  proof (cases "?n = 0")
    case True
    with m show ?thesis by simp
  next
    case False
    then show ?thesis by (intro sorted_progress_values) simp
  qed
  have lst: "ok \<and> pages \<noteq> [] \<longrightarrow>
      map (progress_value ?n) [0 ..< m] \<noteq> [] \<and> last (map (progress_value ?n) [0 ..< m]) = 100"
  proof
    assume a: "ok \<and> pages \<noteq> []"
    then have "m = ?n" "0 < ?n" using m pos by simp_all
    then show "map (progress_value ?n) [0 ..< m] \<noteq> [] \<and> last (map (progress_value ?n) [0 ..< m]) = 100"
      using progress_value_last [of ?n] by (simp add: last_map)
  qed
  show ?thesis
    unfolding Let_def rep total_steps_nat_ceiling [OF assms(1)]
    using m srt lst by (simp add: progress_value_def)
qed

theorem reported_progress_witness:
  "drop (length (progress idle))
     (progress (fst (dividir_pdf (sample_env sample_names ''abcdefghij'' (\<lambda>_. False))
        idle ''in.pdf'' ''names.xlsx'' 3 ''out''))) = [25, 50, 75, 100]
   \<and> sorted_wrt (<) (drop (length (progress idle))
     (progress (fst (dividir_pdf (sample_env sample_names ''abcdefghij'' (\<lambda>_. False))
        idle ''in.pdf'' ''names.xlsx'' 3 ''out''))))"
proof -
  let ?e = "sample_env sample_names ''abcdefghij'' (\<lambda>_. False)"
  let ?r = "dividir_pdf ?e idle ''in.pdf'' ''names.xlsx'' 3 ''out''"
  have run: "?r = (fst ?r, True)" by (simp add: sample_run)
  have doc: "read_pdf ?e ''in.pdf'' = Inr ''abcdefghij''" by (simp add: sample_env_def)
  have p: "0 < (3::nat)" by simp
  have "progress (fst ?r) = [25, 50, 75, 100]" by (simp add: sample_run)
  with reported_progress [OF p doc run] show ?thesis by (simp add: Let_def idle_def)
qed

text \<open>
  A successful run on a document without pages reports no value: the values it reports
  do not end at 100.
\<close>

theorem progress_empty_document_counterexample:
  "snd (dividir_pdf (sample_env sample_names [] (\<lambda>_. False)) idle ''in.pdf'' ''names.xlsx'' 3 ''out'')
   \<and> progress (fst (dividir_pdf (sample_env sample_names [] (\<lambda>_. False)) idle
        ''in.pdf'' ''names.xlsx'' 3 ''out'')) = []
   \<and> 100 \<notin> set (progress (fst (dividir_pdf (sample_env sample_names [] (\<lambda>_. False)) idle
        ''in.pdf'' ''names.xlsx'' 3 ''out'')))"
  by (simp add: dividir_pdf_def sample_env_def sample_names_def idle_def validate_excel_data_def
      total_steps_of_def py_range.simps)

section \<open>Cancellation\<close>

lemma sample_failed_write:
  "dividir_pdf (sample_env sample_names ''abcdefghij'' (\<lambda>_. False)
                  \<lparr>write_error := (\<lambda>k. if k = 2 then Some (OSError ''disk full'') else None)\<rparr>)
       (idle\<lparr>cancel_operation := False\<rparr>) ''in.pdf'' ''names.xlsx'' 3 ''out'' =
     (idle\<lparr>written := [((''out'', ''A.pdf''), ''abc''), ((''out'', ''ReportQ1.pdf''), ''def'')],
           progress := [25, 50],
           log := [Log_criado ''A.pdf'', Log_criado ''ReportQ1.pdf'',
                   Log_erro_salvar ''C.pdf'' (OSError ''disk full'')],
           dialogs := [Erro_salvar ''C.pdf'' (OSError ''disk full'')]\<rparr>, False)"
  by (simp add: dividir_pdf_def sample_env_def sample_names_def idle_def validate_excel_data_def
      total_steps_of_def py_range.simps chunk_pages_def novo_nome_of_def sanitize_filename_def
      illegal_chars_def strip_def rstrip_def isspace_def upt_conv_Cons Let_def)

text \<open>
  C6. When the cancel request arrives after \<open>k\<close> chunks have been written and before
  the next test of the flag, with \<open>k\<close> below the required chunk count, the splitter
  returns at that test: the run has made exactly the writes of the chunks \<open>0\<close> to
  \<open>k - 1\<close>, after those that were there before, it returns \<open>False\<close> with the flag
  set and the cancellation as its last log line, and \<open>iniciar_divisao\<close> shows no
  message box for it. The final message tells the three outcomes apart: for the same
  fields, any run of the splitter that returns \<open>False\<close> with the flag not set ends
  with the error box, and any run that returns \<open>True\<close> ends with the box of success.
\<close>

theorem cancelled_run:
  assumes fields: "pdf \<noteq> []" "xls \<noteq> []" "out \<noteq> []" "str_isdigit pstr" "py_int pstr = Inr p"
    and names: "read_excel e xls = Inr df" "df \<noteq> []" "None \<notin> set df"
    and doc: "read_pdf e pdf = Inr pages" and p: "0 < p"
    and enough: "nat \<lceil>real (length pages) / real p\<rceil> \<le> length df"
    and k: "k < nat \<lceil>real (length pages) / real p\<rceil>"
    and before: "\<forall>j<k. \<not> cancel_request e j \<and> write_error e j = None"
    and request: "cancel_request e k"
  shows "(\<exists>w'. dividir_pdf e (w\<lparr>cancel_operation := False\<rparr>) pdf xls p out = (w', False)
      \<and> iniciar_divisao e w pdf xls pstr out = Inr w'
      \<and> written w' = written w @ map (chunk_write df pages p out) [0 ..< k]
      \<and> length (written w') = length (written w) + k
      \<and> cancel_operation w' \<and> last (log w') = Log_cancelada \<and> dialogs w' = dialogs w)
    \<and> (dividir_pdf f (w\<lparr>cancel_operation := False\<rparr>) pdf xls p out = (v, False)
          \<and> \<not> cancel_operation v \<longrightarrow>
        iniciar_divisao f w pdf xls pstr out = Inr (v\<lparr>dialogs := dialogs v @ [Erro_generico]\<rparr>))
    \<and> (dividir_pdf f (w\<lparr>cancel_operation := False\<rparr>) pdf xls p out = (v, True) \<longrightarrow>
        iniciar_divisao f w pdf xls pstr out = Inr (v\<lparr>dialogs := dialogs v @ [Info_concluido]\<rparr>))"
proof (intro conjI impI)
  let ?n = "total_steps_of (length pages) p"
  let ?w0 = "w\<lparr>cancel_operation := False\<rparr>"
  let ?w' = "?w0\<lparr>cancel_operation := True,
         written := written ?w0 @ map (chunk_write df pages p out) [0 ..< k],
         log := log ?w0 @ map (\<lambda>k. Log_criado (novo_nome_of (str_cell (df ! k)))) [0 ..< k]
                  @ [Log_cancelada],
         progress := progress ?w0 @ map (progress_value ?n) [0 ..< k]\<rparr>"
  have n: "nat \<lceil>real (length pages) / real p\<rceil> = ?n" by (rule total_steps_nat_ceiling [OF p])
  have kn: "k < ?n" and le: "?n \<le> length df" using k enough by (simp_all add: n)
  have loop: "process_chunks e df pages p ?n out (map (\<lambda>k. k * p) [0 ..< ?n]) ?w0
              = (?w', Return_False)"
    using before request kn le
    by (intro process_chunks_cancel [OF p]) simp_all
  have run: "dividir_pdf e ?w0 pdf xls p out = (?w', False)"
    by (simp add: dividir_pdf_loop [OF names doc p le] loop)
  have shell: "iniciar_divisao e w pdf xls pstr out = Inr ?w'"
    using fields by (simp add: iniciar_divisao_def validar_campos_def run)
  show "\<exists>w'. dividir_pdf e ?w0 pdf xls p out = (w', False)
      \<and> iniciar_divisao e w pdf xls pstr out = Inr w'
      \<and> written w' = written w @ map (chunk_write df pages p out) [0 ..< k]
      \<and> length (written w') = length (written w) + k
      \<and> cancel_operation w' \<and> last (log w') = Log_cancelada \<and> dialogs w' = dialogs w"
    by (rule exI [of _ ?w']) (simp add: run shell)
next
  assume "dividir_pdf f (w\<lparr>cancel_operation := False\<rparr>) pdf xls p out = (v, False)
          \<and> \<not> cancel_operation v"
  then show "iniciar_divisao f w pdf xls pstr out = Inr (v\<lparr>dialogs := dialogs v @ [Erro_generico]\<rparr>)"
    using fields by (simp add: iniciar_divisao_def validar_campos_def)
next
  assume "dividir_pdf f (w\<lparr>cancel_operation := False\<rparr>) pdf xls p out = (v, True)"
  then show "iniciar_divisao f w pdf xls pstr out = Inr (v\<lparr>dialogs := dialogs v @ [Info_concluido]\<rparr>)"
    using fields by (simp add: iniciar_divisao_def validar_campos_def)
qed

theorem cancelled_run_witness:
  "(\<exists>w'. dividir_pdf (sample_env sample_names ''abcdefghij'' (\<lambda>k. k = 2))
            (idle\<lparr>cancel_operation := False\<rparr>) ''in.pdf'' ''names.xlsx'' 3 ''out'' = (w', False)
      \<and> iniciar_divisao (sample_env sample_names ''abcdefghij'' (\<lambda>k. k = 2)) idle
            ''in.pdf'' ''names.xlsx'' ''3'' ''out'' = Inr w'
      \<and> length (written w') = 2
      \<and> cancel_operation w' \<and> last (log w') = Log_cancelada \<and> dialogs w' = [])
   \<and> iniciar_divisao (sample_env sample_names ''abcdefghij'' (\<lambda>_. False)
                  \<lparr>write_error := (\<lambda>k. if k = 2 then Some (OSError ''disk full'') else None)\<rparr>)
        idle ''in.pdf'' ''names.xlsx'' ''3'' ''out'' =
      Inr (idle\<lparr>written := [((''out'', ''A.pdf''), ''abc''), ((''out'', ''ReportQ1.pdf''), ''def'')],
           progress := [25, 50],
           log := [Log_criado ''A.pdf'', Log_criado ''ReportQ1.pdf'',
                   Log_erro_salvar ''C.pdf'' (OSError ''disk full'')],
           dialogs := [Erro_salvar ''C.pdf'' (OSError ''disk full''), Erro_generico]\<rparr>)
   \<and> iniciar_divisao (sample_env sample_names ''abcdefghij'' (\<lambda>_. False))
        idle ''in.pdf'' ''names.xlsx'' ''3'' ''out'' =
      Inr (idle\<lparr>written := [((''out'', ''A.pdf''), ''abc''), ((''out'', ''ReportQ1.pdf''), ''def''),
                        ((''out'', ''C.pdf''), ''ghi''), ((''out'', ''D.pdf''), ''j'')],
           progress := [25, 50, 75, 100],
           log := [Log_criado ''A.pdf'', Log_criado ''ReportQ1.pdf'', Log_criado ''C.pdf'',
                   Log_criado ''D.pdf'', Log_concluido],
           dialogs := [Info_concluido]\<rparr>)"
proof -
  let ?e = "sample_env sample_names ''abcdefghij'' (\<lambda>k. k = 2)"
  let ?e2 = "sample_env sample_names ''abcdefghij'' (\<lambda>_. False)
                  \<lparr>write_error := (\<lambda>k. if k = 2 then Some (OSError ''disk full'') else None)\<rparr>"
  let ?e3 = "sample_env sample_names ''abcdefghij'' (\<lambda>_. False)"
  let ?v2 = "idle\<lparr>written := [((''out'', ''A.pdf''), ''abc''), ((''out'', ''ReportQ1.pdf''), ''def'')],
           progress := [25, 50],
           log := [Log_criado ''A.pdf'', Log_criado ''ReportQ1.pdf'',
                   Log_erro_salvar ''C.pdf'' (OSError ''disk full'')],
           dialogs := [Erro_salvar ''C.pdf'' (OSError ''disk full'')]\<rparr>"
  let ?v3 = "idle\<lparr>written := [((''out'', ''A.pdf''), ''abc''), ((''out'', ''ReportQ1.pdf''), ''def''),
                        ((''out'', ''C.pdf''), ''ghi''), ((''out'', ''D.pdf''), ''j'')],
           progress := [25, 50, 75, 100],
           log := [Log_criado ''A.pdf'', Log_criado ''ReportQ1.pdf'', Log_criado ''C.pdf'',
                   Log_criado ''D.pdf'', Log_concluido]\<rparr>"
  have fields: "''in.pdf'' \<noteq> []" "''names.xlsx'' \<noteq> []" "''out'' \<noteq> []"
    "str_isdigit ''3''" "py_int ''3'' = Inr 3"
    by (simp_all add: str_isdigit_def isdigit_def ascii_digit_def py_int_def)
  have names: "read_excel ?e ''names.xlsx'' = Inr sample_names"
    "sample_names \<noteq> []" "None \<notin> set sample_names"
    and doc: "read_pdf ?e ''in.pdf'' = Inr ''abcdefghij''"
    by (simp_all add: sample_env_def sample_names_def)
  have c: "nat \<lceil>real (length ''abcdefghij'') / real (3::nat)\<rceil> = 4"
    by (simp add: ceiling_eq_iff)
  have enough: "nat \<lceil>real (length ''abcdefghij'') / real (3::nat)\<rceil> \<le> length sample_names"
    and k: "2 < nat \<lceil>real (length ''abcdefghij'') / real (3::nat)\<rceil>"
    unfolding c by (simp_all add: sample_names_def)
  have before: "\<forall>j<2. \<not> cancel_request ?e j \<and> write_error ?e j = None"
    and request: "cancel_request ?e 2"
    by (simp_all add: sample_env_def)
  have w0: "idle\<lparr>cancel_operation := False\<rparr> = idle" by (simp add: idle_def)
  note failed = sample_failed_write
  have good: "dividir_pdf ?e3 (idle\<lparr>cancel_operation := False\<rparr>) ''in.pdf'' ''names.xlsx'' 3 ''out''
     = (idle\<lparr>written := [((''out'', ''A.pdf''), ''abc''), ((''out'', ''ReportQ1.pdf''), ''def''),
                        ((''out'', ''C.pdf''), ''ghi''), ((''out'', ''D.pdf''), ''j'')],
           progress := [25, 50, 75, 100],
           log := [Log_criado ''A.pdf'', Log_criado ''ReportQ1.pdf'', Log_criado ''C.pdf'',
                   Log_criado ''D.pdf'', Log_concluido]\<rparr>, True)"
    by (simp add: w0 sample_run)
  have a: "\<exists>w'. dividir_pdf ?e (idle\<lparr>cancel_operation := False\<rparr>) ''in.pdf'' ''names.xlsx'' 3 ''out'' = (w', False)
      \<and> iniciar_divisao ?e idle ''in.pdf'' ''names.xlsx'' ''3'' ''out'' = Inr w'
      \<and> length (written w') = 2
      \<and> cancel_operation w' \<and> last (log w') = Log_cancelada \<and> dialogs w' = []"
    using cancelled_run [where w = idle, OF fields names doc _ enough k before request,
        THEN conjunct1]
    by (auto simp: idle_def)
  have b: "iniciar_divisao ?e2 idle ''in.pdf'' ''names.xlsx'' ''3'' ''out'' =
      Inr (idle\<lparr>written := [((''out'', ''A.pdf''), ''abc''), ((''out'', ''ReportQ1.pdf''), ''def'')],
           progress := [25, 50],
           log := [Log_criado ''A.pdf'', Log_criado ''ReportQ1.pdf'',
                   Log_erro_salvar ''C.pdf'' (OSError ''disk full'')],
           dialogs := [Erro_salvar ''C.pdf'' (OSError ''disk full''), Erro_generico]\<rparr>)"
    using cancelled_run [where w = idle and f = ?e2 and v = ?v2, OF fields names doc _ enough k before request,
        THEN conjunct2, THEN conjunct1] failed
    by (simp add: idle_def)
  have d: "iniciar_divisao ?e3 idle ''in.pdf'' ''names.xlsx'' ''3'' ''out'' =
      Inr (idle\<lparr>written := [((''out'', ''A.pdf''), ''abc''), ((''out'', ''ReportQ1.pdf''), ''def''),
                        ((''out'', ''C.pdf''), ''ghi''), ((''out'', ''D.pdf''), ''j'')],
           progress := [25, 50, 75, 100],
           log := [Log_criado ''A.pdf'', Log_criado ''ReportQ1.pdf'', Log_criado ''C.pdf'',
                   Log_criado ''D.pdf'', Log_concluido],
           dialogs := [Info_concluido]\<rparr>)"
    using cancelled_run [where w = idle and f = ?e3 and v = ?v3, OF fields names doc _ enough k before request,
        THEN conjunct2, THEN conjunct2] good
    by (simp add: idle_def)
  from a b d show ?thesis by blast
qed

section \<open>The validation of the fields\<close>

text \<open>
  C8. The validation of the fields accepts the text \<open>0\<close> for the pages per file;
  \<open>int\<close> turns it into 0, which is passed to the splitter, and there the division by
  it raises \<open>ZeroDivisionError\<close>, which the handler of \<open>dividir_pdf\<close> reports.
  So an accepted input does not always give a positive \<open>pagesPerFile\<close>.
\<close>

theorem zero_pages_per_file_accepted:
  "validar_campos ''in.pdf'' ''names.xlsx'' ''out'' ''0'' idle = (idle, True)
   \<and> py_int ''0'' = Inr 0
   \<and> iniciar_divisao (sample_env sample_names ''abcdefghij'' (\<lambda>_. False)) idle
        ''in.pdf'' ''names.xlsx'' ''0'' ''out'' =
      Inr (idle\<lparr>log := [Log_erro_processamento ZeroDivisionError],
                dialogs := [Erro_processamento ZeroDivisionError, Erro_generico]\<rparr>)"
  by (simp add: validar_campos_def str_isdigit_def isdigit_def ascii_digit_def py_int_def
      iniciar_divisao_def dividir_pdf_def sample_env_def sample_names_def idle_def
      validate_excel_data_def handle_exception_def)

end
